theory Spec2Isabelle
  imports Main "HOL-Library.Multiset" "HOL-Library.Word"
begin

section \<open>Data model\<close>

text \<open>
  A JavaScript string is a sequence of 16-bit code units. The entry text is
  modelled that way because \<^verbatim>\<open>String.prototype.trim\<close> is defined on code units;
  ids and messages are opaque and modelled as \<^typ>\<open>string\<close>.
\<close>

type_synonym jsstring = "16 word list"

text \<open>
  \<^verbatim>\<open>ClipboardEntry\<close> (imported from \<^verbatim>\<open>../types\<close>): the fields the hook reads and
  writes are \<^verbatim>\<open>id\<close>, \<^verbatim>\<open>text\<close>, \<^verbatim>\<open>timestamp\<close> and \<^verbatim>\<open>pinned\<close>. The field names
  \<^verbatim>\<open>id\<close> and \<^verbatim>\<open>text\<close> carry a suffix here. Timestamps are the integer
  milliseconds of \<^verbatim>\<open>Date.now()\<close>.
\<close>

record ClipboardEntry =
  id_entry :: string
  text_entry :: jsstring
  timestamp :: int
  pinned :: bool

text \<open>
  What \<^verbatim>\<open>localStorage.getItem(STORAGE_KEY)\<close> followed by \<^verbatim>\<open>JSON.parse\<close> can
  meet: no item (\<^verbatim>\<open>null\<close>), the empty string (falsy, like \<^verbatim>\<open>null\<close>), a value on
  which \<^verbatim>\<open>JSON.parse\<close> or the following \<^verbatim>\<open>.sort\<close> throws, or the JSON text of an
  array of entries. \<^verbatim>\<open>JSON.parse (JSON.stringify h)\<close> gives back \<open>h\<close> for a
  list of entries with string, integer and boolean fields, so a stored
  snapshot is kept as the list itself.
\<close>

datatype stored = Absent | Empty_string | Malformed | Snapshot "ClipboardEntry list"

text \<open>
  The state of the hook together with the collaborators it writes to:
  the three \<^verbatim>\<open>useState\<close> cells, the item under \<^verbatim>\<open>STORAGE_KEY\<close>, the arguments
  of every \<^verbatim>\<open>localStorage.setItem\<close> call made so far (whether it threw or
  not), and the lines given to \<^verbatim>\<open>console.log\<close> and \<^verbatim>\<open>console.error\<close>.
\<close>

record store =
  history :: "ClipboardEntry list"
  isLoading :: bool
  error :: "string option"
  storage :: stored
  setItem_calls :: "ClipboardEntry list list"
  console_log :: "string list"
  console_error :: "string list"

definition init_store :: store where
  "init_store = \<lparr>history = [], isLoading = True, error = None, storage = Absent,
     setItem_calls = [], console_log = [], console_error = []\<rparr>"

section \<open>The canonical sort\<close>

text \<open>
  The comparator of both \<^verbatim>\<open>sort\<close> calls:
  \<^verbatim>\<open>(b.pinned ? 1 : 0) - (a.pinned ? 1 : 0) || b.timestamp - a.timestamp\<close>.
  \<^verbatim>\<open>x || y\<close> is \<open>x\<close> unless \<open>x\<close> is zero.
\<close>

definition compareEntries :: "ClipboardEntry \<Rightarrow> ClipboardEntry \<Rightarrow> int" where
  "compareEntries a b =
     (let d = (if pinned b then 1 else 0) - (if pinned a then 1 else 0)
      in if d \<noteq> 0 then d else timestamp b - timestamp a)"

text \<open>
  \<^verbatim>\<open>Array.prototype.sort\<close> is a stable sort (ECMAScript 2019). With a
  consistent comparator its result is determined: the sorted arrangement in
  which elements that compare equal keep their order. Insertion from the
  right, placing an element before the first one it does not compare greater
  than, computes that arrangement.
\<close>

fun insertEntry :: "ClipboardEntry \<Rightarrow> ClipboardEntry list \<Rightarrow> ClipboardEntry list" where
  "insertEntry x [] = [x]"
| "insertEntry x (y # ys) =
     (if compareEntries x y \<le> 0 then x # y # ys else y # insertEntry x ys)"

fun sortHistory :: "ClipboardEntry list \<Rightarrow> ClipboardEntry list" where
  "sortHistory [] = []"
| "sortHistory (x # xs) = insertEntry x (sortHistory xs)"

section \<open>Helpers of the JavaScript library\<close>

text \<open>\<^verbatim>\<open>Array.prototype.findIndex\<close>: the first index whose element satisfies the
  predicate; \<open>None\<close> stands for \<^verbatim>\<open>-1\<close>.\<close>

fun findIndex :: "('a \<Rightarrow> bool) \<Rightarrow> 'a list \<Rightarrow> nat option" where
  "findIndex P [] = None"
| "findIndex P (x # xs) = (if P x then Some 0 else map_option Suc (findIndex P xs))"

text \<open>The code units that \<^verbatim>\<open>trim\<close> strips: ECMAScript's WhiteSpace and
  LineTerminator.\<close>

definition isWhiteSpace :: "16 word \<Rightarrow> bool" where
  "isWhiteSpace c = (c = 0x09 \<or> c = 0x0A \<or> c = 0x0B \<or> c = 0x0C \<or> c = 0x0D \<or> c = 0x20
     \<or> c = 0xA0 \<or> c = 0x1680 \<or> (0x2000 \<le> c \<and> c \<le> 0x200A) \<or> c = 0x2028 \<or> c = 0x2029
     \<or> c = 0x202F \<or> c = 0x205F \<or> c = 0x3000 \<or> c = 0xFEFF)"

definition trim :: "jsstring \<Rightarrow> jsstring" where
  "trim t = rev (dropWhile isWhiteSpace (rev (dropWhile isWhiteSpace t)))"

section \<open>The operations of useClipboardManager\<close>

text \<open>\<^verbatim>\<open>showNotification (message, title = "Clipboard Pro")\<close> writes one line to
  \<^verbatim>\<open>console.log\<close>.\<close>

definition showNotification :: "string \<Rightarrow> store \<Rightarrow> store" where
  "showNotification message s =
     s\<lparr>console_log := console_log s @ [''Notification: Clipboard Pro - '' @ message]\<rparr>"

text \<open>
  \<^verbatim>\<open>saveHistory (updatedHistory)\<close>. The flag \<open>ok\<close> is the environment's answer
  to \<^verbatim>\<open>localStorage.setItem\<close>: \<open>False\<close> when it throws (the item is then left
  as it was). The state is set to the sorted list after the \<^verbatim>\<open>try\<close> block in
  both cases.
\<close>

definition saveHistory :: "bool \<Rightarrow> ClipboardEntry list \<Rightarrow> store \<Rightarrow> store" where
  "saveHistory ok updatedHistory s =
     (let sortedHistory = sortHistory updatedHistory;
          s1 = s\<lparr>setItem_calls := setItem_calls s @ [sortedHistory]\<rparr>;
          s2 = (if ok then s1\<lparr>storage := Snapshot sortedHistory\<rparr>
                else s1\<lparr>console_error := console_error s1 @ [''Error saving history to localStorage:''],
                        error := Some ''Failed to save clipboard history. Storage might be full.''\<rparr>)
      in s2\<lparr>history := sortedHistory\<rparr>)"

text \<open>\<^verbatim>\<open>loadHistory ()\<close>.\<close>

definition loadHistory :: "store \<Rightarrow> store" where
  "loadHistory s =
     (let s1 = s\<lparr>isLoading := True, error := None\<rparr>;
          s2 = (case storage s1 of
                  Snapshot storedHistory \<Rightarrow> s1\<lparr>history := sortHistory storedHistory\<rparr>
                | Absent \<Rightarrow> s1\<lparr>history := []\<rparr>
                | Empty_string \<Rightarrow> s1\<lparr>history := []\<rparr>
                | Malformed \<Rightarrow>
                    s1\<lparr>console_error := console_error s1 @ [''Error loading history from localStorage:''],
                       error := Some ''Failed to load clipboard history.'',
                       history := []\<rparr>)
      in s2\<lparr>isLoading := False\<rparr>)"

text \<open>
  What one call of \<^verbatim>\<open>addEntry\<close> takes from its environment: the reading of
  \<^verbatim>\<open>Date.now()\<close>, the value of \<^verbatim>\<open>crypto.randomUUID()\<close>, whether
  \<^verbatim>\<open>localStorage.setItem\<close> succeeds, and which of the two writes to the
  \<^verbatim>\<open>history\<close> cell React commits last. The updater passed to \<^verbatim>\<open>setHistory\<close>
  calls \<^verbatim>\<open>saveHistory (finalHistory)\<close>, which itself calls
  \<^verbatim>\<open>setHistory (sortedHistory)\<close>, and then returns \<^verbatim>\<open>finalHistory\<close>; the source
  leaves open which of the two values the cell holds afterwards (it depends
  on how React processes an update issued inside an updater), so both are
  modelled.
\<close>

datatype commit = Updater_return | SaveHistory_write

record add_env =
  now :: int
  randomUUID :: string
  write_ok :: bool
  committed :: commit

text \<open>The guard \<^verbatim>\<open>!text || text.trim() === ""\<close>.\<close>

definition rejected :: "jsstring \<Rightarrow> bool" where
  "rejected t = (t = [] \<or> trim t = [])"

text \<open>The body of the updater of \<^verbatim>\<open>addEntry\<close> up to \<^verbatim>\<open>finalHistory\<close>.
  \<open>MAX_HISTORY_ITEMS\<close> is imported from \<^verbatim>\<open>../constants\<close> and is a parameter here.\<close>

definition finalHistory ::
  "nat \<Rightarrow> int \<Rightarrow> string \<Rightarrow> jsstring \<Rightarrow> ClipboardEntry list \<Rightarrow> ClipboardEntry list" where
  "finalHistory MAX_HISTORY_ITEMS date_now uuid t prevHistory =
     (let newHistory =
            (case findIndex (\<lambda>entry. text_entry entry = t) prevHistory of
               Some existingEntryIndex \<Rightarrow>
                 (prevHistory ! existingEntryIndex)\<lparr>timestamp := date_now\<rparr>
                   # take existingEntryIndex prevHistory
                   @ drop (Suc existingEntryIndex) prevHistory
             | None \<Rightarrow>
                 \<lparr>id_entry = uuid, text_entry = t, timestamp = date_now, pinned = False\<rparr>
                   # prevHistory);
          unpinnedItems = filter (\<lambda>item. \<not> pinned item) newHistory;
          pinnedItems = filter (\<lambda>item. pinned item) newHistory;
          unpinnedItems' = (if length unpinnedItems > MAX_HISTORY_ITEMS
                            then take MAX_HISTORY_ITEMS unpinnedItems else unpinnedItems)
      in pinnedItems @ unpinnedItems')"

definition addEntry :: "nat \<Rightarrow> add_env \<Rightarrow> jsstring \<Rightarrow> store \<Rightarrow> store" where
  "addEntry MAX_HISTORY_ITEMS env t s =
     (if rejected t then s
      else
        let final = finalHistory MAX_HISTORY_ITEMS (now env) (randomUUID env) t (history s);
            s1 = saveHistory (write_ok env) final s
        in (case committed env of
              Updater_return \<Rightarrow> s1\<lparr>history := final\<rparr>
            | SaveHistory_write \<Rightarrow> s1))"

text \<open>\<^verbatim>\<open>deleteEntry (id)\<close>.\<close>

definition deleteEntry :: "bool \<Rightarrow> string \<Rightarrow> store \<Rightarrow> store" where
  "deleteEntry ok i s =
     (let updatedHistory = filter (\<lambda>entry. id_entry entry \<noteq> i) (history s)
      in showNotification ''Item removed from history.'' (saveHistory ok updatedHistory s))"

text \<open>\<^verbatim>\<open>clearHistory ()\<close>.\<close>

definition clearHistory :: "bool \<Rightarrow> store \<Rightarrow> store" where
  "clearHistory ok s =
     (let pinnedItems = filter (\<lambda>item. pinned item) (history s);
          s1 = saveHistory ok pinnedItems s
      in if list_ex (\<lambda>item. \<not> pinned item) (history s)
         then showNotification ''Clipboard history cleared (pinned items remain).'' s1
         else s1)"

text \<open>\<^verbatim>\<open>togglePinEntry (id)\<close>.\<close>

definition togglePinEntry :: "bool \<Rightarrow> string \<Rightarrow> store \<Rightarrow> store" where
  "togglePinEntry ok i s =
     (case findIndex (\<lambda>entry. id_entry entry = i) (history s) of
        None \<Rightarrow> s
      | Some entryIndex \<Rightarrow>
          let updatedEntry = (history s ! entryIndex)\<lparr>pinned := \<not> pinned (history s ! entryIndex)\<rparr>;
              updatedHistory = take entryIndex (history s) @ [updatedEntry]
                                 @ drop (Suc entryIndex) (history s);
              s1 = saveHistory ok updatedHistory s
          in showNotification (if pinned updatedEntry then ''Item pinned.'' else ''Item unpinned.'') s1)"

section \<open>Runs of the store\<close>

text \<open>
  One call of a store operation, with what it takes from its environment.
  Calls are run one after the other, each on the state the previous one
  left (the hook's closures over \<^verbatim>\<open>history\<close> are rebuilt on every change).
\<close>

datatype operation =
    AddEntry add_env jsstring
  | DeleteEntry bool string
  | ClearHistory bool
  | TogglePinEntry bool string
  | LoadHistory

fun step :: "nat \<Rightarrow> operation \<Rightarrow> store \<Rightarrow> store" where
  "step M (AddEntry env t) s = addEntry M env t s"
| "step M (DeleteEntry ok i) s = deleteEntry ok i s"
| "step M (ClearHistory ok) s = clearHistory ok s"
| "step M (TogglePinEntry ok i) s = togglePinEntry ok i s"
| "step M LoadHistory s = loadHistory s"

fun run :: "nat \<Rightarrow> operation list \<Rightarrow> store \<Rightarrow> store" where
  "run M [] s = s"
| "run M (op # ops) s = run M ops (step M op s)"

section \<open>Predicates of the specification\<close>

text \<open>The list is in the order the comparator asks for: no element compares
  greater than a later one.\<close>

definition canonical :: "ClipboardEntry list \<Rightarrow> bool" where
  "canonical h = sorted_wrt (\<lambda>a b. compareEntries a b \<le> 0) h"

definition unpinned_count :: "ClipboardEntry list \<Rightarrow> nat" where
  "unpinned_count h = length (filter (\<lambda>item. \<not> pinned item) h)"

text \<open>The call is a \<^verbatim>\<open>togglePinEntry\<close> that finds its entry pinned while the
  number of unpinned entries has already reached the cap.\<close>

fun unpins_at_cap :: "nat \<Rightarrow> operation \<Rightarrow> store \<Rightarrow> bool" where
  "unpins_at_cap M (TogglePinEntry ok i) s =
     (case findIndex (\<lambda>entry. id_entry entry = i) (history s) of
        None \<Rightarrow> False
      | Some k \<Rightarrow> pinned (history s ! k) \<and> M \<le> unpinned_count (history s))"
| "unpins_at_cap M other s = False"

fun cap_respecting :: "nat \<Rightarrow> operation list \<Rightarrow> store \<Rightarrow> bool" where
  "cap_respecting M [] s = True"
| "cap_respecting M (op # ops) s =
     (\<not> unpins_at_cap M op s \<and> cap_respecting M ops (step M op s))"



text \<open>The list \<^verbatim>\<open>updatedHistory\<close> that \<^verbatim>\<open>togglePinEntry\<close> builds for the index it found.\<close>

definition toggled :: "nat \<Rightarrow> ClipboardEntry list \<Rightarrow> ClipboardEntry list" where
  "toggled k h = take k h @ [(h ! k)\<lparr>pinned := \<not> pinned (h ! k)\<rparr>] @ drop (Suc k) h"

text \<open>The list \<^verbatim>\<open>newHistory\<close> inside the updater of \<^verbatim>\<open>addEntry\<close>, on its own.\<close>

definition newHistory :: "int \<Rightarrow> string \<Rightarrow> jsstring \<Rightarrow> ClipboardEntry list \<Rightarrow> ClipboardEntry list" where
  "newHistory date_now uuid t prevHistory =
     (case findIndex (\<lambda>entry. text_entry entry = t) prevHistory of
        Some existingEntryIndex \<Rightarrow>
          (prevHistory ! existingEntryIndex)\<lparr>timestamp := date_now\<rparr>
            # take existingEntryIndex prevHistory
            @ drop (Suc existingEntryIndex) prevHistory
      | None \<Rightarrow>
          \<lparr>id_entry = uuid, text_entry = t, timestamp = date_now, pinned = False\<rparr>
            # prevHistory)"

text \<open>No stored snapshot breaks the property \<open>P\<close>.\<close>

definition stored_ok :: "(ClipboardEntry list \<Rightarrow> bool) \<Rightarrow> stored \<Rightarrow> bool" where
  "stored_ok P v = (case v of Snapshot h \<Rightarrow> P h | _ \<Rightarrow> True)"

text \<open>The unpinned entries number at most the cap.\<close>

definition capped :: "nat \<Rightarrow> ClipboardEntry list \<Rightarrow> bool" where
  "capped M h = (unpinned_count h \<le> M)"

text \<open>No two entries of the list have the same text.\<close>

definition unique_texts :: "ClipboardEntry list \<Rightarrow> bool" where
  "unique_texts h = distinct (map text_entry h)"

section \<open>Properties of the canonical sort\<close>

lemma compareEntries_le_iff:
  "compareEntries a b \<le> 0 \<longleftrightarrow>
     (pinned a \<and> \<not> pinned b) \<or> (pinned a = pinned b \<and> timestamp b \<le> timestamp a)"
  by (auto simp: compareEntries_def Let_def)



lemma mset_insertEntry: "mset (insertEntry x xs) = add_mset x (mset xs)"
  by (induction xs) auto

lemma mset_sortHistory: "mset (sortHistory xs) = mset xs"
  by (induction xs) (auto simp: mset_insertEntry)

lemma set_insertEntry: "set (insertEntry x xs) = insert x (set xs)"
  by (induction xs) auto

lemma set_sortHistory: "set (sortHistory xs) = set xs"
  by (induction xs) (auto simp: set_insertEntry)

lemma length_sortHistory: "length (sortHistory xs) = length xs"
  using mset_sortHistory [of xs] by (metis size_mset)



lemma insertEntry_canonical_Cons: "canonical (x # xs) \<Longrightarrow> insertEntry x xs = x # xs"
  by (cases xs) (auto simp: canonical_def)

lemma sortHistory_canonical: "canonical xs \<Longrightarrow> sortHistory xs = xs"
proof (induction xs)
  case Nil
  then show ?case by simp
next
  case (Cons x xs)
  then have "canonical xs" by (simp add: canonical_def)
  with Cons show ?case by (simp add: insertEntry_canonical_Cons)
qed




section \<open>Facts about the library helpers\<close>

lemma findIndex_None_iff: "findIndex P xs = None \<longleftrightarrow> (\<forall>x\<in>set xs. \<not> P x)"
  by (induction xs) auto

lemma findIndex_Some:
  "findIndex P xs = Some k \<Longrightarrow> k < length xs \<and> P (xs ! k)"
proof (induction xs arbitrary: k)
  case Nil
  then show ?case by simp
next
  case (Cons x xs)
  then show ?case by (cases "P x") auto
qed

lemma trim_Nil_iff: "trim t = [] \<longleftrightarrow> (\<forall>c\<in>set t. isWhiteSpace c)"
proof -
  have "trim t = [] \<longleftrightarrow> (\<forall>c\<in>set (dropWhile isWhiteSpace t). isWhiteSpace c)"
    by (simp add: trim_def dropWhile_eq_Nil_conv)
  also have "\<dots> \<longleftrightarrow> (\<forall>c\<in>set t. isWhiteSpace c)"
  proof
    assume "\<forall>c\<in>set (dropWhile isWhiteSpace t). isWhiteSpace c"
    then have "dropWhile isWhiteSpace t = []"
      by (metis dropWhile_eq_Nil_conv dropWhile_idem)
    then show "\<forall>c\<in>set t. isWhiteSpace c" by (simp add: dropWhile_eq_Nil_conv)
  next
    assume "\<forall>c\<in>set t. isWhiteSpace c"
    then show "\<forall>c\<in>set (dropWhile isWhiteSpace t). isWhiteSpace c"
      by (meson set_dropWhileD)
  qed
  finally show ?thesis .
qed

lemma rejected_iff: "rejected t \<longleftrightarrow> (t = [] \<or> (\<forall>c\<in>set t. isWhiteSpace c))"
  by (simp add: rejected_def trim_Nil_iff)

section \<open>Facts about saveHistory\<close>

lemma history_saveHistory [simp]: "history (saveHistory ok h s) = sortHistory h"
  by (simp add: saveHistory_def Let_def)

lemma storage_saveHistory [simp]:
  "storage (saveHistory ok h s) = (if ok then Snapshot (sortHistory h) else storage s)"
  by (simp add: saveHistory_def Let_def)

lemma setItem_calls_saveHistory [simp]:
  "setItem_calls (saveHistory ok h s) = setItem_calls s @ [sortHistory h]"
  by (simp add: saveHistory_def Let_def)

lemma console_log_saveHistory [simp]: "console_log (saveHistory ok h s) = console_log s"
  by (simp add: saveHistory_def Let_def)

lemma error_saveHistory [simp]:
  "error (saveHistory ok h s) =
     (if ok then error s else Some ''Failed to save clipboard history. Storage might be full.'')"
  by (simp add: saveHistory_def Let_def)

lemma history_showNotification [simp]: "history (showNotification m s) = history s"
  by (simp add: showNotification_def)

lemma storage_showNotification [simp]: "storage (showNotification m s) = storage s"
  by (simp add: showNotification_def)

lemma setItem_calls_showNotification [simp]:
  "setItem_calls (showNotification m s) = setItem_calls s"
  by (simp add: showNotification_def)

lemma error_showNotification [simp]: "error (showNotification m s) = error s"
  by (simp add: showNotification_def)

lemma console_log_showNotification [simp]:
  "console_log (showNotification m s) = console_log s @ [''Notification: Clipboard Pro - '' @ m]"
  by (simp add: showNotification_def)

section \<open>History after each operation\<close>

lemma history_addEntry:
  "history (addEntry M env t s) =
     (if rejected t then history s
      else case committed env of
             Updater_return \<Rightarrow> finalHistory M (now env) (randomUUID env) t (history s)
           | SaveHistory_write \<Rightarrow> sortHistory (finalHistory M (now env) (randomUUID env) t (history s)))"
  by (simp add: addEntry_def Let_def split: commit.splits)

lemma storage_addEntry:
  "storage (addEntry M env t s) =
     (if \<not> rejected t \<and> write_ok env
      then Snapshot (sortHistory (finalHistory M (now env) (randomUUID env) t (history s)))
      else storage s)"
  by (simp add: addEntry_def Let_def split: commit.splits)

lemma history_deleteEntry:
  "history (deleteEntry ok i s) = sortHistory (filter (\<lambda>entry. id_entry entry \<noteq> i) (history s))"
  by (simp add: deleteEntry_def Let_def)

lemma storage_deleteEntry:
  "storage (deleteEntry ok i s) =
     (if ok then Snapshot (sortHistory (filter (\<lambda>entry. id_entry entry \<noteq> i) (history s))) else storage s)"
  by (simp add: deleteEntry_def Let_def)

lemma history_clearHistory:
  "history (clearHistory ok s) = sortHistory (filter pinned (history s))"
  by (simp add: clearHistory_def Let_def)

lemma storage_clearHistory:
  "storage (clearHistory ok s) =
     (if ok then Snapshot (sortHistory (filter pinned (history s))) else storage s)"
  by (simp add: clearHistory_def Let_def)

lemma history_togglePinEntry:
  "history (togglePinEntry ok i s) =
     (case findIndex (\<lambda>entry. id_entry entry = i) (history s) of
        None \<Rightarrow> history s
      | Some k \<Rightarrow> sortHistory (toggled k (history s)))"
  by (simp add: togglePinEntry_def toggled_def Let_def split: option.splits)

lemma storage_togglePinEntry:
  "storage (togglePinEntry ok i s) =
     (case findIndex (\<lambda>entry. id_entry entry = i) (history s) of
        None \<Rightarrow> storage s
      | Some k \<Rightarrow> if ok then Snapshot (sortHistory (toggled k (history s))) else storage s)"
  by (simp add: togglePinEntry_def toggled_def Let_def split: option.splits)

lemma history_loadHistory:
  "history (loadHistory s) = (case storage s of Snapshot h \<Rightarrow> sortHistory h | _ \<Rightarrow> [])"
  by (simp add: loadHistory_def Let_def split: stored.splits)

lemma storage_loadHistory: "storage (loadHistory s) = storage s"
  by (simp add: loadHistory_def Let_def split: stored.splits)

section \<open>Rejected input\<close>

text \<open>
  Claim C5. For every state and every text that is empty or consists only of
  white space, \<^verbatim>\<open>addEntry\<close> returns the state it was given: the history, the
  stored item, the list of \<^verbatim>\<open>setItem\<close> calls and the console are all as before.
\<close>

theorem addEntry_blank_unchanged:
  "t = [] \<or> (\<forall>c\<in>set t. isWhiteSpace c) \<Longrightarrow> addEntry M env t s = s"
  by (simp add: addEntry_def rejected_iff)

theorem addEntry_blank_unchanged_witness:
  "([0x20, 0x20] = [] \<or> (\<forall>c\<in>set [0x20, 0x20]. isWhiteSpace c))
   \<and> addEntry 3 \<lparr>now = 7, randomUUID = ''u'', write_ok = True, committed = SaveHistory_write\<rparr>
       [0x20, 0x20] init_store = init_store"
  using addEntry_blank_unchanged [of "[0x20, 0x20]" 3
      "\<lparr>now = 7, randomUUID = ''u'', write_ok = True, committed = SaveHistory_write\<rparr>" init_store]
  by (simp add: isWhiteSpace_def)

section \<open>Saving\<close>

lemma saveHistory_failed:
  "saveHistory False h s =
     (saveHistory True h s)\<lparr>storage := storage s,
        error := Some ''Failed to save clipboard history. Storage might be full.'',
        console_error := console_error s @ [''Error saving history to localStorage:'']\<rparr>"
  by (simp add: saveHistory_def Let_def)

lemma addEntry_effects:
  assumes "\<not> rejected t"
  shows "history (addEntry M env t s) =
           (case committed env of
              Updater_return \<Rightarrow> finalHistory M (now env) (randomUUID env) t (history s)
            | SaveHistory_write \<Rightarrow> sortHistory (finalHistory M (now env) (randomUUID env) t (history s)))"
    and "setItem_calls (addEntry M env t s) =
           setItem_calls s @ [sortHistory (finalHistory M (now env) (randomUUID env) t (history s))]"
    and "storage (addEntry M env t s) =
           (if write_ok env
            then Snapshot (sortHistory (finalHistory M (now env) (randomUUID env) t (history s)))
            else storage s)"
    and "error (addEntry M env t s) =
           (if write_ok env then error s
            else Some ''Failed to save clipboard history. Storage might be full.'')"
  using assms by (simp_all add: addEntry_def Let_def split: commit.splits)

lemma deleteEntry_effects:
  "history (deleteEntry ok i s) = sortHistory (filter (\<lambda>entry. id_entry entry \<noteq> i) (history s))"
  "setItem_calls (deleteEntry ok i s) =
     setItem_calls s @ [sortHistory (filter (\<lambda>entry. id_entry entry \<noteq> i) (history s))]"
  "storage (deleteEntry ok i s) =
     (if ok then Snapshot (sortHistory (filter (\<lambda>entry. id_entry entry \<noteq> i) (history s)))
      else storage s)"
  "error (deleteEntry ok i s) =
     (if ok then error s else Some ''Failed to save clipboard history. Storage might be full.'')"
  by (simp_all add: deleteEntry_def Let_def)

lemma clearHistory_effects:
  "history (clearHistory ok s) = sortHistory (filter pinned (history s))"
  "setItem_calls (clearHistory ok s) = setItem_calls s @ [sortHistory (filter pinned (history s))]"
  "storage (clearHistory ok s) =
     (if ok then Snapshot (sortHistory (filter pinned (history s))) else storage s)"
  "error (clearHistory ok s) =
     (if ok then error s else Some ''Failed to save clipboard history. Storage might be full.'')"
  by (simp_all add: clearHistory_def Let_def)

lemma togglePinEntry_effects:
  assumes "findIndex (\<lambda>entry. id_entry entry = i) (history s) = Some k"
  shows "history (togglePinEntry ok i s) = sortHistory (toggled k (history s))"
    and "setItem_calls (togglePinEntry ok i s) = setItem_calls s @ [sortHistory (toggled k (history s))]"
    and "storage (togglePinEntry ok i s) =
           (if ok then Snapshot (sortHistory (toggled k (history s))) else storage s)"
    and "error (togglePinEntry ok i s) =
           (if ok then error s else Some ''Failed to save clipboard history. Storage might be full.'')"
  using assms by (simp_all add: togglePinEntry_def toggled_def Let_def)

text \<open>
  Claim C6. Each mutating operation first has its new history as a finished
  list, a function of the state before the call alone: \<^verbatim>\<open>finalHistory\<close> for an
  accepted \<^verbatim>\<open>addEntry\<close>, the list without the entries of the given id for
  \<^verbatim>\<open>deleteEntry\<close>, the pinned entries for \<^verbatim>\<open>clearHistory\<close>, the list with the
  found entry's pin flag negated for a \<^verbatim>\<open>togglePinEntry\<close> that finds its id.
  The operation then calls \<^verbatim>\<open>localStorage.setItem\<close> once, with the sorted form
  of that list, and sets the in-memory history to that list (in sorted form;
  for \<^verbatim>\<open>addEntry\<close> in sorted form or as the updater returned it), whether the
  write succeeded or threw. When the write throws, the stored item stays as
  it was and the error is set to the advisory message; the state differs
  from the state after a successful write in the stored item, the error and
  the error console only, so the history is never one that is partly updated.
\<close>

theorem save_failure_keeps_new_history:
  "(\<not> rejected t \<longrightarrow>
      history (addEntry M env t s) =
        (case committed env of
           Updater_return \<Rightarrow> finalHistory M (now env) (randomUUID env) t (history s)
         | SaveHistory_write \<Rightarrow> sortHistory (finalHistory M (now env) (randomUUID env) t (history s)))
      \<and> setItem_calls (addEntry M env t s) =
          setItem_calls s @ [sortHistory (finalHistory M (now env) (randomUUID env) t (history s))]
      \<and> storage (addEntry M env t s) =
          (if write_ok env
           then Snapshot (sortHistory (finalHistory M (now env) (randomUUID env) t (history s)))
           else storage s)
      \<and> error (addEntry M env t s) =
          (if write_ok env then error s
           else Some ''Failed to save clipboard history. Storage might be full.'')
      \<and> addEntry M (env\<lparr>write_ok := False\<rparr>) t s =
          (addEntry M (env\<lparr>write_ok := True\<rparr>) t s)\<lparr>storage := storage s,
             error := Some ''Failed to save clipboard history. Storage might be full.'',
             console_error := console_error s @ [''Error saving history to localStorage:'']\<rparr>)
   \<and> history (deleteEntry ok i s) = sortHistory (filter (\<lambda>entry. id_entry entry \<noteq> i) (history s))
   \<and> setItem_calls (deleteEntry ok i s) =
       setItem_calls s @ [sortHistory (filter (\<lambda>entry. id_entry entry \<noteq> i) (history s))]
   \<and> storage (deleteEntry ok i s) =
       (if ok then Snapshot (sortHistory (filter (\<lambda>entry. id_entry entry \<noteq> i) (history s)))
        else storage s)
   \<and> error (deleteEntry ok i s) =
       (if ok then error s else Some ''Failed to save clipboard history. Storage might be full.'')
   \<and> deleteEntry False i s =
       (deleteEntry True i s)\<lparr>storage := storage s,
          error := Some ''Failed to save clipboard history. Storage might be full.'',
          console_error := console_error s @ [''Error saving history to localStorage:'']\<rparr>
   \<and> history (clearHistory ok s) = sortHistory (filter pinned (history s))
   \<and> setItem_calls (clearHistory ok s) = setItem_calls s @ [sortHistory (filter pinned (history s))]
   \<and> storage (clearHistory ok s) =
       (if ok then Snapshot (sortHistory (filter pinned (history s))) else storage s)
   \<and> error (clearHistory ok s) =
       (if ok then error s else Some ''Failed to save clipboard history. Storage might be full.'')
   \<and> clearHistory False s =
       (clearHistory True s)\<lparr>storage := storage s,
          error := Some ''Failed to save clipboard history. Storage might be full.'',
          console_error := console_error s @ [''Error saving history to localStorage:'']\<rparr>
   \<and> (findIndex (\<lambda>entry. id_entry entry = i) (history s) = Some k \<longrightarrow>
        history (togglePinEntry ok i s) = sortHistory (toggled k (history s))
        \<and> setItem_calls (togglePinEntry ok i s) =
            setItem_calls s @ [sortHistory (toggled k (history s))]
        \<and> storage (togglePinEntry ok i s) =
            (if ok then Snapshot (sortHistory (toggled k (history s))) else storage s)
        \<and> error (togglePinEntry ok i s) =
            (if ok then error s else Some ''Failed to save clipboard history. Storage might be full.'')
        \<and> togglePinEntry False i s =
            (togglePinEntry True i s)\<lparr>storage := storage s,
               error := Some ''Failed to save clipboard history. Storage might be full.'',
               console_error := console_error s @ [''Error saving history to localStorage:'']\<rparr>)"
proof -
  have add: "\<not> rejected t \<Longrightarrow> addEntry M (env\<lparr>write_ok := False\<rparr>) t s =
          (addEntry M (env\<lparr>write_ok := True\<rparr>) t s)\<lparr>storage := storage s,
             error := Some ''Failed to save clipboard history. Storage might be full.'',
             console_error := console_error s @ [''Error saving history to localStorage:'']\<rparr>"
    by (simp add: addEntry_def Let_def saveHistory_failed split: commit.splits)
  have del: "deleteEntry False i s =
       (deleteEntry True i s)\<lparr>storage := storage s,
          error := Some ''Failed to save clipboard history. Storage might be full.'',
          console_error := console_error s @ [''Error saving history to localStorage:'']\<rparr>"
    by (simp add: deleteEntry_def Let_def saveHistory_failed showNotification_def)
  have clr: "clearHistory False s =
       (clearHistory True s)\<lparr>storage := storage s,
          error := Some ''Failed to save clipboard history. Storage might be full.'',
          console_error := console_error s @ [''Error saving history to localStorage:'']\<rparr>"
    by (simp add: clearHistory_def Let_def saveHistory_failed showNotification_def)
  have tog: "findIndex (\<lambda>entry. id_entry entry = i) (history s) = Some k \<Longrightarrow>
        togglePinEntry False i s =
            (togglePinEntry True i s)\<lparr>storage := storage s,
               error := Some ''Failed to save clipboard history. Storage might be full.'',
               console_error := console_error s @ [''Error saving history to localStorage:'']\<rparr>"
    by (simp add: togglePinEntry_def Let_def saveHistory_failed showNotification_def)
  show ?thesis
    using add del clr tog
    by (intro conjI impI)
      (simp_all only: addEntry_effects deleteEntry_effects clearHistory_effects
        togglePinEntry_effects not_False_eq_True)
qed

theorem save_failure_keeps_new_history_witness:
  "\<not> rejected [0x61]
   \<and> history (addEntry 3 \<lparr>now = 7, randomUUID = ''u'', write_ok = False, committed = SaveHistory_write\<rparr>
        [0x61] init_store)
       = [\<lparr>id_entry = ''u'', text_entry = [0x61], timestamp = 7, pinned = False\<rparr>]
   \<and> setItem_calls (addEntry 3 \<lparr>now = 7, randomUUID = ''u'', write_ok = False, committed = SaveHistory_write\<rparr>
        [0x61] init_store)
       = [[\<lparr>id_entry = ''u'', text_entry = [0x61], timestamp = 7, pinned = False\<rparr>]]
   \<and> storage (addEntry 3 \<lparr>now = 7, randomUUID = ''u'', write_ok = False, committed = SaveHistory_write\<rparr>
        [0x61] init_store) = Absent
   \<and> error (addEntry 3 \<lparr>now = 7, randomUUID = ''u'', write_ok = False, committed = SaveHistory_write\<rparr>
        [0x61] init_store) = Some ''Failed to save clipboard history. Storage might be full.''
   \<and> findIndex (\<lambda>entry. id_entry entry = ''1'') (history (init_store\<lparr>history :=
         [\<lparr>id_entry = ''1'', text_entry = [0x78], timestamp = 4, pinned = False\<rparr>]\<rparr>)) = Some 0
   \<and> history (togglePinEntry False ''1'' (init_store\<lparr>history :=
         [\<lparr>id_entry = ''1'', text_entry = [0x78], timestamp = 4, pinned = False\<rparr>]\<rparr>))
       = [\<lparr>id_entry = ''1'', text_entry = [0x78], timestamp = 4, pinned = True\<rparr>]
   \<and> error (togglePinEntry False ''1'' (init_store\<lparr>history :=
         [\<lparr>id_entry = ''1'', text_entry = [0x78], timestamp = 4, pinned = False\<rparr>]\<rparr>))
       = Some ''Failed to save clipboard history. Storage might be full.''"
proof -
  have r: "\<not> rejected [0x61]" by (simp add: rejected_def trim_def isWhiteSpace_def)
  have f: "findIndex (\<lambda>entry. id_entry entry = ''1'') (history (init_store\<lparr>history :=
         [\<lparr>id_entry = ''1'', text_entry = [0x78], timestamp = 4, pinned = False\<rparr>]\<rparr>)) = Some 0"
    by simp
  from save_failure_keeps_new_history [of "[0x61]" 3
      "\<lparr>now = 7, randomUUID = ''u'', write_ok = False, committed = SaveHistory_write\<rparr>" init_store
      False "''1''" 0] r
    save_failure_keeps_new_history [of "[0x61]" 3
      "\<lparr>now = 7, randomUUID = ''u'', write_ok = False, committed = SaveHistory_write\<rparr>"
      "init_store\<lparr>history :=
         [\<lparr>id_entry = ''1'', text_entry = [0x78], timestamp = 4, pinned = False\<rparr>]\<rparr>"
      False "''1''" 0] f
  show ?thesis
    by (simp add: init_store_def addEntry_def saveHistory_def finalHistory_def togglePinEntry_def
        showNotification_def Let_def)
qed

section \<open>clearHistory\<close>

text \<open>
  Claim C7. After \<^verbatim>\<open>clearHistory\<close> the history holds exactly the pinned
  entries of the history before, each as it was (in canonical order, which
  is the order they had when the history was canonical), and one line goes
  to the notification sink if and only if the history before held an
  unpinned entry.
\<close>

theorem clearHistory_keeps_pinned:
  "history (clearHistory ok s) = sortHistory (filter pinned (history s))
   \<and> mset (history (clearHistory ok s)) = filter_mset pinned (mset (history s))
   \<and> (canonical (history s) \<longrightarrow> history (clearHistory ok s) = filter pinned (history s))
   \<and> console_log (clearHistory ok s) =
       (if \<exists>e\<in>set (history s). \<not> pinned e
        then console_log s @ [''Notification: Clipboard Pro - Clipboard history cleared (pinned items remain).'']
        else console_log s)"
proof -
  have "canonical (history s) \<longrightarrow> sortHistory (filter pinned (history s)) = filter pinned (history s)"
    by (simp add: sortHistory_canonical canonical_def sorted_wrt_filter)
  moreover have "console_log (clearHistory ok s) =
       (if \<exists>e\<in>set (history s). \<not> pinned e
        then console_log s @ [''Notification: Clipboard Pro - Clipboard history cleared (pinned items remain).'']
        else console_log s)"
    by (simp add: clearHistory_def Let_def list_ex_iff)
  ultimately show ?thesis
    by (simp add: history_clearHistory mset_sortHistory)
qed

theorem clearHistory_keeps_pinned_witness:
  "canonical [\<lparr>id_entry = ''2'', text_entry = [0x79], timestamp = 2, pinned = True\<rparr>,
              \<lparr>id_entry = ''1'', text_entry = [0x78], timestamp = 1, pinned = False\<rparr>]
   \<and> history (clearHistory True (init_store\<lparr>history :=
         [\<lparr>id_entry = ''2'', text_entry = [0x79], timestamp = 2, pinned = True\<rparr>,
          \<lparr>id_entry = ''1'', text_entry = [0x78], timestamp = 1, pinned = False\<rparr>]\<rparr>))
       = [\<lparr>id_entry = ''2'', text_entry = [0x79], timestamp = 2, pinned = True\<rparr>]
   \<and> console_log (clearHistory True (init_store\<lparr>history :=
         [\<lparr>id_entry = ''2'', text_entry = [0x79], timestamp = 2, pinned = True\<rparr>,
          \<lparr>id_entry = ''1'', text_entry = [0x78], timestamp = 1, pinned = False\<rparr>]\<rparr>))
       = [''Notification: Clipboard Pro - Clipboard history cleared (pinned items remain).'']"
  using clearHistory_keeps_pinned [of True "init_store\<lparr>history :=
         [\<lparr>id_entry = ''2'', text_entry = [0x79], timestamp = 2, pinned = True\<rparr>,
          \<lparr>id_entry = ''1'', text_entry = [0x78], timestamp = 1, pinned = False\<rparr>]\<rparr>"]
  by (simp add: init_store_def canonical_def compareEntries_def)

section \<open>deleteEntry with an id that is not there\<close>

text \<open>
  Claim C10. When no entry of the history has the id given to
  \<^verbatim>\<open>deleteEntry\<close>, the history keeps every entry as it was (the list is
  re-sorted, which changes nothing when it was canonical), and still
  \<^verbatim>\<open>localStorage.setItem\<close> is called with that history and the line
  "Item removed from history." goes to the notification sink, as for an id
  that was found.
\<close>

theorem deleteEntry_absent_id:
  "\<forall>e\<in>set (history s). id_entry e \<noteq> i \<Longrightarrow>
   mset (history (deleteEntry ok i s)) = mset (history s)
   \<and> history (deleteEntry ok i s) = sortHistory (history s)
   \<and> (canonical (history s) \<longrightarrow> history (deleteEntry ok i s) = history s)
   \<and> setItem_calls (deleteEntry ok i s) = setItem_calls s @ [sortHistory (history s)]
   \<and> storage (deleteEntry True i s) = Snapshot (sortHistory (history s))
   \<and> console_log (deleteEntry ok i s) =
       console_log s @ [''Notification: Clipboard Pro - Item removed from history.'']"
proof -
  assume "\<forall>e\<in>set (history s). id_entry e \<noteq> i"
  then have "filter (\<lambda>entry. id_entry entry \<noteq> i) (history s) = history s"
    by (simp add: filter_id_conv)
  then show ?thesis
    by (simp add: deleteEntry_def Let_def mset_sortHistory sortHistory_canonical)
qed

theorem deleteEntry_absent_id_witness:
  "''9'' \<notin> set (map id_entry (history (init_store\<lparr>history :=
         [\<lparr>id_entry = ''1'', text_entry = [0x78], timestamp = 1, pinned = False\<rparr>]\<rparr>)))
   \<and> history (deleteEntry False ''9'' (init_store\<lparr>history :=
         [\<lparr>id_entry = ''1'', text_entry = [0x78], timestamp = 1, pinned = False\<rparr>]\<rparr>))
       = [\<lparr>id_entry = ''1'', text_entry = [0x78], timestamp = 1, pinned = False\<rparr>]
   \<and> setItem_calls (deleteEntry False ''9'' (init_store\<lparr>history :=
         [\<lparr>id_entry = ''1'', text_entry = [0x78], timestamp = 1, pinned = False\<rparr>]\<rparr>))
       = [[\<lparr>id_entry = ''1'', text_entry = [0x78], timestamp = 1, pinned = False\<rparr>]]
   \<and> console_log (deleteEntry False ''9'' (init_store\<lparr>history :=
         [\<lparr>id_entry = ''1'', text_entry = [0x78], timestamp = 1, pinned = False\<rparr>]\<rparr>))
       = [''Notification: Clipboard Pro - Item removed from history.'']"
  using deleteEntry_absent_id [of "init_store\<lparr>history :=
         [\<lparr>id_entry = ''1'', text_entry = [0x78], timestamp = 1, pinned = False\<rparr>]\<rparr>" "''9''" False]
  by (simp add: init_store_def canonical_def)

section \<open>The capacity of the unpinned part\<close>

lemma finalHistory_conv:
  "finalHistory M n u t prev =
     filter pinned (newHistory n u t prev) @ take M (filter (\<lambda>e. \<not> pinned e) (newHistory n u t prev))"
  by (simp add: finalHistory_def newHistory_def Let_def)

lemma unpinned_count_sortHistory [simp]: "unpinned_count (sortHistory h) = unpinned_count h"
proof -
  have "size (filter_mset (\<lambda>e. \<not> pinned e) (mset (sortHistory h)))
        = size (filter_mset (\<lambda>e. \<not> pinned e) (mset h))"
    by (simp add: mset_sortHistory)
  then show ?thesis
    by (simp add: unpinned_count_def flip: mset_filter)
qed

lemma unpinned_count_append [simp]:
  "unpinned_count (xs @ ys) = unpinned_count xs + unpinned_count ys"
  by (simp add: unpinned_count_def)

lemma unpinned_count_take_unpinned:
  "unpinned_count (take M (filter (\<lambda>e. \<not> pinned e) xs)) \<le> M"
proof -
  have "unpinned_count (take M (filter (\<lambda>e. \<not> pinned e) xs))
        \<le> length (take M (filter (\<lambda>e. \<not> pinned e) xs))"
    unfolding unpinned_count_def by (rule length_filter_le)
  then show ?thesis by simp
qed

lemma unpinned_count_finalHistory: "unpinned_count (finalHistory M n u t prev) \<le> M"
  using unpinned_count_take_unpinned [of M "newHistory n u t prev"]
  by (simp add: finalHistory_conv) (simp add: unpinned_count_def)

lemma unpinned_count_filter_le: "unpinned_count (filter Q h) \<le> unpinned_count h"
  unfolding unpinned_count_def by (induction h) auto

lemma unpinned_count_filter_pinned [simp]: "unpinned_count (filter pinned h) = 0"
  by (simp add: unpinned_count_def)

lemma unpinned_count_toggled:
  assumes "k < length h"
  shows "unpinned_count (toggled k h) =
           (if pinned (h ! k) then Suc (unpinned_count h) else unpinned_count h - 1)"
proof -
  have "h = take k h @ (h ! k) # drop (Suc k) h"
    using assms by (rule id_take_nth_drop)
  then have "unpinned_count h =
      unpinned_count (take k h) + unpinned_count [h ! k] + unpinned_count (drop (Suc k) h)"
    by (metis append_Cons append_Nil unpinned_count_append add.assoc)
  then show ?thesis
    by (simp add: toggled_def) (simp add: unpinned_count_def)
qed

lemma cap_step:
  assumes "capped M (history s)" "stored_ok (capped M) (storage s)" "\<not> unpins_at_cap M op s"
  shows "capped M (history (step M op s)) \<and> stored_ok (capped M) (storage (step M op s))"
proof (cases op)
  case (AddEntry env t)
  then show ?thesis
    using assms unpinned_count_finalHistory [of M "now env" "randomUUID env" t "history s"]
    by (simp add: history_addEntry storage_addEntry capped_def stored_ok_def split: commit.splits)
next
  case (DeleteEntry ok i)
  then show ?thesis
    using assms unpinned_count_filter_le [of "\<lambda>entry. id_entry entry \<noteq> i" "history s"]
    by (simp add: history_deleteEntry storage_deleteEntry capped_def stored_ok_def)
next
  case (ClearHistory ok)
  then show ?thesis
    using assms by (simp add: history_clearHistory storage_clearHistory capped_def stored_ok_def)
next
  case (TogglePinEntry ok i)
  show ?thesis
  proof (cases "findIndex (\<lambda>entry. id_entry entry = i) (history s)")
    case None
    with TogglePinEntry assms show ?thesis
      by (simp add: history_togglePinEntry storage_togglePinEntry)
  next
    case (Some k)
    then have "k < length (history s)" by (simp add: findIndex_Some)
    then have "unpinned_count (toggled k (history s)) \<le> M"
      using assms(1,3) TogglePinEntry Some by (auto simp: unpinned_count_toggled capped_def)
    with TogglePinEntry Some assms(2) show ?thesis
      by (simp add: history_togglePinEntry storage_togglePinEntry capped_def stored_ok_def)
  qed
next
  case LoadHistory
  then show ?thesis
    using assms(2)
    by (auto simp: history_loadHistory storage_loadHistory capped_def stored_ok_def
        split: stored.splits) (simp_all add: unpinned_count_def)
qed

lemma cap_run:
  "capped M (history s) \<Longrightarrow> stored_ok (capped M) (storage s) \<Longrightarrow> cap_respecting M ops s \<Longrightarrow>
   capped M (history (run M ops s))"
proof (induction ops arbitrary: s)
  case Nil
  then show ?case by simp
next
  case (Cons op ops)
  from Cons.prems have "capped M (history (step M op s)) \<and> stored_ok (capped M) (storage (step M op s))"
    by (intro cap_step) simp_all
  with Cons.IH [of "step M op s"] Cons.prems(3) show ?case by simp
qed


text \<open>
  Claim C1, as stated, fails: \<^verbatim>\<open>togglePinEntry\<close> never evicts, so unpinning an
  entry while the unpinned entries already number \<open>MAX_HISTORY_ITEMS\<close>
  leaves one more than the cap. With a cap of 3: add "a", pin it, add "b",
  "c", "d" (three unpinned entries), unpin "a".
\<close>

theorem cap_broken_by_unpin:
  "\<not> unpinned_count (history (run 3
       [AddEntry \<lparr>now = 1, randomUUID = ''ia'', write_ok = True, committed = SaveHistory_write\<rparr> [0x61],
        TogglePinEntry True ''ia'',
        AddEntry \<lparr>now = 2, randomUUID = ''ib'', write_ok = True, committed = SaveHistory_write\<rparr> [0x62],
        AddEntry \<lparr>now = 3, randomUUID = ''ic'', write_ok = True, committed = SaveHistory_write\<rparr> [0x63],
        AddEntry \<lparr>now = 4, randomUUID = ''id'', write_ok = True, committed = SaveHistory_write\<rparr> [0x64],
        TogglePinEntry True ''ia''] init_store)) \<le> 3"
  by code_simp

text \<open>
  Claim C1, amended. In every state reached from the empty store by
  \<^verbatim>\<open>addEntry\<close>, \<^verbatim>\<open>deleteEntry\<close>, \<^verbatim>\<open>clearHistory\<close>, \<^verbatim>\<open>togglePinEntry\<close> and
  \<^verbatim>\<open>loadHistory\<close> calls, none of which unpins an entry while the unpinned
  entries already number \<open>MAX_HISTORY_ITEMS\<close>, the unpinned entries number
  at most \<open>MAX_HISTORY_ITEMS\<close>. From any state at all, an accepted
  \<^verbatim>\<open>addEntry\<close> leaves at most \<open>MAX_HISTORY_ITEMS\<close> unpinned entries, and a
  \<^verbatim>\<open>togglePinEntry\<close> leaves at most one more than it found.
\<close>

theorem cap_unless_unpinned_at_cap:
  "(cap_respecting M ops init_store \<longrightarrow> unpinned_count (history (run M ops init_store)) \<le> M)
   \<and> (\<not> rejected t \<longrightarrow> unpinned_count (history (addEntry M env t s)) \<le> M)
   \<and> unpinned_count (history (togglePinEntry ok i s)) \<le> Suc (unpinned_count (history s))"
proof -
  have "capped M (history init_store)" "stored_ok (capped M) (storage init_store)"
    by (simp_all add: init_store_def capped_def stored_ok_def unpinned_count_def)
  then have "cap_respecting M ops init_store \<longrightarrow> capped M (history (run M ops init_store))"
    using cap_run by blast
  moreover have "\<not> rejected t \<longrightarrow> unpinned_count (history (addEntry M env t s)) \<le> M"
    using unpinned_count_finalHistory [of M "now env" "randomUUID env" t "history s"]
    by (simp add: history_addEntry split: commit.splits)
  moreover have "unpinned_count (history (togglePinEntry ok i s)) \<le> Suc (unpinned_count (history s))"
  proof (cases "findIndex (\<lambda>entry. id_entry entry = i) (history s)")
    case None
    then show ?thesis by (simp add: history_togglePinEntry)
  next
    case (Some k)
    then have "k < length (history s)" by (simp add: findIndex_Some)
    with Some show ?thesis by (simp add: history_togglePinEntry unpinned_count_toggled le_SucI)
  qed
  ultimately show ?thesis by (simp add: capped_def)
qed

theorem cap_unless_unpinned_at_cap_witness:
  "cap_respecting 2
       [AddEntry \<lparr>now = 1, randomUUID = ''ia'', write_ok = True, committed = Updater_return\<rparr> [0x61],
        TogglePinEntry True ''ia'',
        AddEntry \<lparr>now = 2, randomUUID = ''ib'', write_ok = False, committed = SaveHistory_write\<rparr> [0x62],
        TogglePinEntry True ''ia'',
        AddEntry \<lparr>now = 3, randomUUID = ''ic'', write_ok = True, committed = Updater_return\<rparr> [0x63]] init_store
   \<and> unpinned_count (history (run 2
       [AddEntry \<lparr>now = 1, randomUUID = ''ia'', write_ok = True, committed = Updater_return\<rparr> [0x61],
        TogglePinEntry True ''ia'',
        AddEntry \<lparr>now = 2, randomUUID = ''ib'', write_ok = False, committed = SaveHistory_write\<rparr> [0x62],
        TogglePinEntry True ''ia'',
        AddEntry \<lparr>now = 3, randomUUID = ''ic'', write_ok = True, committed = Updater_return\<rparr> [0x63]] init_store)) \<le> 2
   \<and> \<not> rejected [0x61]
   \<and> unpinned_count (history (addEntry 0
         \<lparr>now = 1, randomUUID = ''ia'', write_ok = True, committed = Updater_return\<rparr> [0x61] init_store)) \<le> 0"
proof -
  have "cap_respecting 2
       [AddEntry \<lparr>now = 1, randomUUID = ''ia'', write_ok = True, committed = Updater_return\<rparr> [0x61],
        TogglePinEntry True ''ia'',
        AddEntry \<lparr>now = 2, randomUUID = ''ib'', write_ok = False, committed = SaveHistory_write\<rparr> [0x62],
        TogglePinEntry True ''ia'',
        AddEntry \<lparr>now = 3, randomUUID = ''ic'', write_ok = True, committed = Updater_return\<rparr> [0x63]] init_store"
    by code_simp
  moreover have "\<not> rejected [0x61]"
    by (simp add: rejected_def trim_def isWhiteSpace_def)
  ultimately show ?thesis
    using cap_unless_unpinned_at_cap by blast
qed

section \<open>Uniqueness of texts\<close>

lemma unique_texts_sortHistory [simp]: "unique_texts (sortHistory h) = unique_texts h"
proof -
  have "mset (map text_entry (sortHistory h)) = mset (map text_entry h)"
    by (metis mset_map mset_sortHistory)
  then show ?thesis
    unfolding unique_texts_def by (rule mset_eq_imp_distinct_iff)
qed

lemma unique_texts_filter: "unique_texts h \<Longrightarrow> unique_texts (filter Q h)"
  by (simp add: unique_texts_def distinct_map_filter)

lemma map_text_toggled: "k < length h \<Longrightarrow> map text_entry (toggled k h) = map text_entry h"
proof -
  assume k: "k < length h"
  have "map text_entry (toggled k h)
        = map text_entry (take k h) @ text_entry (h ! k) # map text_entry (drop (Suc k) h)"
    by (simp add: toggled_def)
  also have "\<dots> = map text_entry (take k h @ h ! k # drop (Suc k) h)" by simp
  also have "\<dots> = map text_entry h" using k by (simp add: id_take_nth_drop [symmetric])
  finally show ?thesis .
qed

lemma unique_texts_remove_nth:
  "unique_texts h \<Longrightarrow> k < length h \<Longrightarrow>
   unique_texts (take k h @ drop (Suc k) h)
   \<and> text_entry (h ! k) \<notin> text_entry ` set (take k h @ drop (Suc k) h)"
proof -
  assume u: "unique_texts h" and k: "k < length h"
  have "h = take k h @ h ! k # drop (Suc k) h" using k by (rule id_take_nth_drop)
  then have "distinct (map text_entry (take k h) @ text_entry (h ! k) # map text_entry (drop (Suc k) h))"
    using u unfolding unique_texts_def by (metis map_append list.simps(9))
  then show ?thesis
    unfolding unique_texts_def by auto
qed

lemma unique_texts_newHistory:
  assumes "unique_texts prev"
  shows "unique_texts (newHistory n u t prev)"
proof (cases "findIndex (\<lambda>entry. text_entry entry = t) prev")
  case None
  then have "t \<notin> text_entry ` set prev" by (auto simp: findIndex_None_iff)
  with None assms show ?thesis by (simp add: newHistory_def unique_texts_def)
next
  case (Some k)
  then have k: "k < length prev" by (simp add: findIndex_Some)
  from unique_texts_remove_nth [OF assms k] Some show ?thesis
    by (simp add: newHistory_def unique_texts_def image_Un)
qed

lemma unique_texts_partition:
  assumes "unique_texts xs"
  shows "unique_texts (filter P xs @ take M (filter (\<lambda>e. \<not> P e) xs))"
proof -
  from assms have inj: "inj_on text_entry (set xs)" and d: "distinct xs"
    by (simp_all add: unique_texts_def distinct_map)
  have "unique_texts (filter P xs)" using assms by (rule unique_texts_filter)
  moreover have "unique_texts (take M (filter (\<lambda>e. \<not> P e) xs))"
    using unique_texts_filter [OF assms, of "\<lambda>e. \<not> P e"]
    by (simp add: unique_texts_def take_map [symmetric])
  moreover have "text_entry ` set (filter P xs) \<inter> text_entry ` set (take M (filter (\<lambda>e. \<not> P e) xs)) = {}"
  proof (rule ccontr)
    assume "\<not> ?thesis"
    then obtain a b where a: "a \<in> set (filter P xs)"
      and b: "b \<in> set (take M (filter (\<lambda>e. \<not> P e) xs))" and eq: "text_entry a = text_entry b"
      by auto
    from b have b': "b \<in> set xs" "\<not> P b" by (auto dest: in_set_takeD)
    from a have a': "a \<in> set xs" "P a" by auto
    from inj eq a'(1) b'(1) have "a = b" by (rule inj_onD)
    with a'(2) b'(2) show False by simp
  qed
  ultimately show ?thesis
    by (simp add: unique_texts_def)
qed

lemma unique_texts_finalHistory:
  "unique_texts prev \<Longrightarrow> unique_texts (finalHistory M n u t prev)"
  by (simp add: finalHistory_conv unique_texts_partition unique_texts_newHistory)

lemma unique_step:
  assumes "unique_texts (history s)" "stored_ok unique_texts (storage s)"
  shows "unique_texts (history (step M op s)) \<and> stored_ok unique_texts (storage (step M op s))"
proof (cases op)
  case (AddEntry env t)
  then show ?thesis
    using assms unique_texts_finalHistory [of "history s" M "now env" "randomUUID env" t]
    by (simp add: history_addEntry storage_addEntry stored_ok_def split: commit.splits)
next
  case (DeleteEntry ok i)
  then show ?thesis
    using assms by (simp add: history_deleteEntry storage_deleteEntry stored_ok_def unique_texts_filter)
next
  case (ClearHistory ok)
  then show ?thesis
    using assms by (simp add: history_clearHistory storage_clearHistory stored_ok_def unique_texts_filter)
next
  case (TogglePinEntry ok i)
  show ?thesis
  proof (cases "findIndex (\<lambda>entry. id_entry entry = i) (history s)")
    case None
    with TogglePinEntry assms show ?thesis
      by (simp add: history_togglePinEntry storage_togglePinEntry)
  next
    case (Some k)
    then have "k < length (history s)" by (simp add: findIndex_Some)
    then have "unique_texts (toggled k (history s))"
      using assms(1) by (simp add: unique_texts_def map_text_toggled)
    with TogglePinEntry Some assms(2) show ?thesis
      by (simp add: history_togglePinEntry storage_togglePinEntry stored_ok_def)
  qed
next
  case LoadHistory
  then show ?thesis
    using assms(2)
    by (auto simp: history_loadHistory storage_loadHistory stored_ok_def
        split: stored.splits) (simp_all add: unique_texts_def)
qed

lemma unique_run:
  "unique_texts (history s) \<Longrightarrow> stored_ok unique_texts (storage s) \<Longrightarrow>
   unique_texts (history (run M ops s)) \<and> stored_ok unique_texts (storage (run M ops s))"
proof (induction ops arbitrary: s)
  case Nil
  then show ?case by simp
next
  case (Cons op ops)
  from Cons.prems have "unique_texts (history (step M op s)) \<and> stored_ok unique_texts (storage (step M op s))"
    by (rule unique_step)
  with Cons.IH [of "step M op s"] show ?case by simp
qed

text \<open>
  Claim C9. In every state reached from the empty store (empty history,
  nothing under the storage key) by \<^verbatim>\<open>addEntry\<close>, \<^verbatim>\<open>deleteEntry\<close>,
  \<^verbatim>\<open>clearHistory\<close>, \<^verbatim>\<open>togglePinEntry\<close> and \<^verbatim>\<open>loadHistory\<close> calls, whatever the
  outcome of the writes, no two entries of the history have the same text.
  This includes the states that \<^verbatim>\<open>loadHistory\<close> produces: \<^verbatim>\<open>saveHistory\<close> is the
  only writer of the stored item, and in every such state the stored
  snapshot, if there is one, has no two entries with the same text either.
\<close>

theorem texts_unique_in_reachable_states:
  "distinct (map text_entry (history (run M ops init_store)))
   \<and> stored_ok unique_texts (storage (run M ops init_store))"
proof -
  have "unique_texts (history init_store)" "stored_ok unique_texts (storage init_store)"
    by (simp_all add: init_store_def unique_texts_def stored_ok_def)
  then have "unique_texts (history (run M ops init_store))
      \<and> stored_ok unique_texts (storage (run M ops init_store))"
    by (rule unique_run)
  then show ?thesis by (simp add: unique_texts_def)
qed

theorem texts_unique_in_reachable_states_witness:
  "distinct (map text_entry (history (run 3
       [AddEntry \<lparr>now = 1, randomUUID = ''1'', write_ok = True, committed = Updater_return\<rparr> [0x61],
        AddEntry \<lparr>now = 2, randomUUID = ''2'', write_ok = True, committed = SaveHistory_write\<rparr> [0x62],
        AddEntry \<lparr>now = 3, randomUUID = ''3'', write_ok = False, committed = Updater_return\<rparr> [0x61],
        LoadHistory,
        AddEntry \<lparr>now = 4, randomUUID = ''4'', write_ok = True, committed = SaveHistory_write\<rparr> [0x61],
        LoadHistory]
       init_store)))
   \<and> map text_entry (history (run 3
       [AddEntry \<lparr>now = 1, randomUUID = ''1'', write_ok = True, committed = Updater_return\<rparr> [0x61],
        AddEntry \<lparr>now = 2, randomUUID = ''2'', write_ok = True, committed = SaveHistory_write\<rparr> [0x62],
        AddEntry \<lparr>now = 3, randomUUID = ''3'', write_ok = False, committed = Updater_return\<rparr> [0x61],
        LoadHistory,
        AddEntry \<lparr>now = 4, randomUUID = ''4'', write_ok = True, committed = SaveHistory_write\<rparr> [0x61],
        LoadHistory]
       init_store)) = [[0x61], [0x62]]"
proof -
  have "map text_entry (history (run 3
       [AddEntry \<lparr>now = 1, randomUUID = ''1'', write_ok = True, committed = Updater_return\<rparr> [0x61],
        AddEntry \<lparr>now = 2, randomUUID = ''2'', write_ok = True, committed = SaveHistory_write\<rparr> [0x62],
        AddEntry \<lparr>now = 3, randomUUID = ''3'', write_ok = False, committed = Updater_return\<rparr> [0x61],
        LoadHistory,
        AddEntry \<lparr>now = 4, randomUUID = ''4'', write_ok = True, committed = SaveHistory_write\<rparr> [0x61],
        LoadHistory]
       init_store)) = [[0x61], [0x62]]"
    by code_simp
  with texts_unique_in_reachable_states [of 3
       "[AddEntry \<lparr>now = 1, randomUUID = ''1'', write_ok = True, committed = Updater_return\<rparr> [0x61],
        AddEntry \<lparr>now = 2, randomUUID = ''2'', write_ok = True, committed = SaveHistory_write\<rparr> [0x62],
        AddEntry \<lparr>now = 3, randomUUID = ''3'', write_ok = False, committed = Updater_return\<rparr> [0x61],
        LoadHistory,
        AddEntry \<lparr>now = 4, randomUUID = ''4'', write_ok = True, committed = SaveHistory_write\<rparr> [0x61],
        LoadHistory]"]
  show ?thesis by blast
qed

section \<open>The order of the history\<close>

lemma canonical_filter: "canonical xs \<Longrightarrow> canonical (filter Q xs)"
  by (simp add: canonical_def sorted_wrt_filter)

lemma canonical_take: "canonical xs \<Longrightarrow> canonical (take n xs)"
  by (simp add: canonical_def sorted_wrt_take)

lemma canonical_remove_nth: "canonical h \<Longrightarrow> canonical (take k h @ drop (Suc k) h)"
proof -
  assume c: "canonical h"
  have cross: "\<forall>x\<in>set (take k h). \<forall>y\<in>set (drop k h). compareEntries x y \<le> 0"
    using c sorted_wrt_append [of "\<lambda>a b. compareEntries a b \<le> 0" "take k h" "drop k h"]
    unfolding canonical_def append_take_drop_id by blast
  have "set (drop (Suc k) h) \<subseteq> set (drop k h)"
    by (metis Suc_n_not_le_n nat_le_linear set_drop_subset_set_drop)
  with cross c show ?thesis
    by (auto simp: canonical_def sorted_wrt_append sorted_wrt_take sorted_wrt_drop)
qed

lemma canonical_pinned_then_unpinned:
  assumes "canonical rest" "\<forall>y\<in>set rest. timestamp y \<le> timestamp e0"
  shows "canonical (filter pinned (e0 # rest) @ take M (filter (\<lambda>e. \<not> pinned e) (e0 # rest)))"
proof -
  have head: "\<forall>y\<in>set rest. pinned y = pinned e0 \<longrightarrow> compareEntries e0 y \<le> 0"
    using assms(2) by (simp add: compareEntries_le_iff)
  have "canonical (filter pinned (e0 # rest))"
    using canonical_filter [OF assms(1), of pinned] head by (auto simp: canonical_def)
  moreover have "canonical (filter (\<lambda>e. \<not> pinned e) (e0 # rest))"
    using canonical_filter [OF assms(1), of "\<lambda>e. \<not> pinned e"] head by (auto simp: canonical_def)
  then have "canonical (take M (filter (\<lambda>e. \<not> pinned e) (e0 # rest)))" by (rule canonical_take)
  moreover have "\<forall>x\<in>set (filter pinned (e0 # rest)).
      \<forall>y\<in>set (take M (filter (\<lambda>e. \<not> pinned e) (e0 # rest))). compareEntries x y \<le> 0"
  proof (intro ballI)
    fix x y
    assume "x \<in> set (filter pinned (e0 # rest))"
      and "y \<in> set (take M (filter (\<lambda>e. \<not> pinned e) (e0 # rest)))"
    then have "x \<in> {e \<in> set (e0 # rest). pinned e}" "y \<in> {e \<in> set (e0 # rest). \<not> pinned e}"
      unfolding set_filter [symmetric] by (blast dest: in_set_takeD)+
    then have "pinned x" "\<not> pinned y" by blast+
    then show "compareEntries x y \<le> 0" by (simp add: compareEntries_le_iff)
  qed
  ultimately show ?thesis
    unfolding canonical_def by (simp only: sorted_wrt_append)
qed

lemma newHistory_shape:
  assumes "canonical prev" "\<forall>y\<in>set prev. timestamp y \<le> n"
  shows "\<exists>e0 rest. newHistory n u t prev = e0 # rest \<and> timestamp e0 = n
           \<and> canonical rest \<and> (\<forall>y\<in>set rest. timestamp y \<le> n)"
proof (cases "findIndex (\<lambda>entry. text_entry entry = t) prev")
  case None
  with assms show ?thesis by (simp add: newHistory_def)
next
  case (Some k)
  have "set (take k prev @ drop (Suc k) prev) \<subseteq> set prev"
    by (auto dest: in_set_takeD in_set_dropD)
  with assms(2) have "\<forall>y\<in>set (take k prev @ drop (Suc k) prev). timestamp y \<le> n" by blast
  with Some canonical_remove_nth [OF assms(1), of k] show ?thesis
    by (simp add: newHistory_def)
qed

lemma canonical_finalHistory:
  assumes "canonical prev" "\<forall>y\<in>set prev. timestamp y \<le> n"
  shows "canonical (finalHistory M n u t prev)"
proof -
  from newHistory_shape [OF assms] obtain e0 rest where
    "newHistory n u t prev = e0 # rest" "timestamp e0 = n"
    "canonical rest" "\<forall>y\<in>set rest. timestamp y \<le> n" by blast
  then show ?thesis
    using canonical_pinned_then_unpinned [of rest e0 M] by (simp add: finalHistory_conv)
qed






section \<open>Adding a text that is already there\<close>

lemma mset_remove_nth:
  "k < length h \<Longrightarrow> mset (take k h @ drop (Suc k) h) = mset h - {#h ! k#}"
proof -
  assume "k < length h"
  then have "h = take k h @ h ! k # drop (Suc k) h" by (rule id_take_nth_drop)
  then have "mset h = add_mset (h ! k) (mset (take k h @ drop (Suc k) h))"
    by (metis mset.simps(2) mset_append union_mset_add_mset_right)
  then show ?thesis by simp
qed

lemma mset_take_subseteq: "mset (take n xs) \<subseteq># mset xs"
proof -
  have "mset xs = mset (take n xs) + mset (drop n xs)"
    by (metis append_take_drop_id mset_append)
  then show ?thesis by simp
qed

lemma mset_finalHistory_subseteq:
  "mset (finalHistory M n u t prev) \<subseteq># mset (newHistory n u t prev)"
proof -
  let ?new = "newHistory n u t prev"
  have "mset (take M (filter (\<lambda>e. \<not> pinned e) ?new)) \<subseteq># mset (filter (\<lambda>e. \<not> pinned e) ?new)"
    by (rule mset_take_subseteq)
  then have "mset (filter pinned ?new) + mset (take M (filter (\<lambda>e. \<not> pinned e) ?new))
      \<subseteq># mset (filter pinned ?new) + mset (filter (\<lambda>e. \<not> pinned e) ?new)"
    by (rule subset_mset.add_left_mono)
  also have "\<dots> = mset ?new"
    by (simp only: mset_filter) simp
  finally show ?thesis by (simp add: finalHistory_conv)
qed

lemma head_in_finalHistory:
  assumes "0 < M" "newHistory n u t prev = e0 # rest"
  shows "e0 \<in> set (finalHistory M n u t prev)"
proof (cases "pinned e0")
  case True
  with assms(2) show ?thesis by (simp add: finalHistory_conv)
next
  case False
  with assms obtain M' where "M = Suc M'" by (cases M) auto
  with False assms(2) show ?thesis by (simp add: finalHistory_conv)
qed

lemma findIndex_only:
  assumes "filter P h = [E]"
  shows "\<exists>k. findIndex P h = Some k \<and> k < length h \<and> h ! k = E"
proof -
  from assms have "E \<in> set (filter P h)" by simp
  then have "findIndex P h \<noteq> None" by (auto simp: findIndex_None_iff)
  then obtain k where k: "findIndex P h = Some k" by auto
  from findIndex_Some [OF k] have kl: "k < length h" and pk: "P (h ! k)" by simp_all
  then have "h ! k \<in> set (filter P h)" by simp
  with assms have "h ! k = E" by simp
  with k kl show ?thesis by simp
qed

lemma mset_singleton_list: "mset xs = {#x#} \<Longrightarrow> xs = [x]"
  by (cases xs) auto

text \<open>
  Claim C4. Let the history hold exactly one entry \<open>E\<close> with the text \<open>t\<close>,
  let \<open>t\<close> pass the guard of \<^verbatim>\<open>addEntry\<close> and let \<open>MAX_HISTORY_ITEMS\<close> be
  positive. After \<^verbatim>\<open>addEntry (t)\<close> the history holds exactly one entry with
  the text \<open>t\<close>: it is \<open>E\<close> with its timestamp set to the \<^verbatim>\<open>Date.now()\<close> of the
  call, so its id and its pin flag are those of \<open>E\<close>. Every other entry of
  the new history is an entry of the old one, unchanged: no entry is created.
\<close>

theorem addEntry_existing_text_promotes:
  assumes "0 < M" and "\<not> rejected t"
    and "filter (\<lambda>e. text_entry e = t) (history s) = [E]"
  shows "filter (\<lambda>e. text_entry e = t) (history (addEntry M env t s)) = [E\<lparr>timestamp := now env\<rparr>]
    \<and> mset (history (addEntry M env t s))
         \<subseteq># add_mset (E\<lparr>timestamp := now env\<rparr>) (mset (history s) - {#E#})"
proof -
  let ?h = "history s" and ?E' = "E\<lparr>timestamp := now env\<rparr>"
  let ?P = "\<lambda>e. text_entry e = t"
  let ?final = "finalHistory M (now env) (randomUUID env) t ?h"
  let ?h' = "history (addEntry M env t s)"
  from assms(3) have "E \<in> set (filter ?P ?h)" by simp
  then have tE: "text_entry E = t" by simp
  from findIndex_only [OF assms(3)] obtain k where
    k: "findIndex ?P ?h = Some k" "k < length ?h" "?h ! k = E" by auto
  then have new: "newHistory (now env) (randomUUID env) t ?h = ?E' # (take k ?h @ drop (Suc k) ?h)"
    by (simp add: newHistory_def)
  have rest: "mset (take k ?h @ drop (Suc k) ?h) = mset ?h - {#E#}"
    using k by (simp add: mset_remove_nth del: mset_append)
  have "mset ?final \<subseteq># mset (newHistory (now env) (randomUUID env) t ?h)"
    by (rule mset_finalHistory_subseteq)
  also have "\<dots> = add_mset ?E' (mset ?h - {#E#})"
    using new rest by simp
  finally have sub: "mset ?final \<subseteq># add_mset ?E' (mset ?h - {#E#})" .
  have mem: "?E' \<in> set ?final" using assms(1) new by (rule head_in_finalHistory)
  have "mset ?h' = mset ?final"
    using assms(2) by (cases "committed env") (simp_all add: history_addEntry mset_sortHistory)
  with sub mem have sub': "mset ?h' \<subseteq># add_mset ?E' (mset ?h - {#E#})" and mem': "?E' \<in># mset ?h'"
    by simp_all
  have "filter_mset ?P (mset ?h - {#E#}) = {#}"
    using assms(3) tE by (simp add: filter_diff_mset flip: mset_filter)
  then have "filter_mset ?P (add_mset ?E' (mset ?h - {#E#})) = {#?E'#}"
    using tE by simp
  with multiset_filter_mono [OF sub', of ?P] have "filter_mset ?P (mset ?h') \<subseteq># {#?E'#}" by simp
  moreover have "?E' \<in># filter_mset ?P (mset ?h')" using mem' tE by simp
  ultimately have "filter_mset ?P (mset ?h') = {#?E'#}"
    by (metis mset_subset_eq_single subset_mset.antisym)
  then have "filter ?P ?h' = [?E']"
    by (intro mset_singleton_list) (simp flip: mset_filter)
  with sub' show ?thesis by simp
qed

theorem addEntry_existing_text_promotes_witness:
  "(0::nat) < 3 \<and> \<not> rejected [0x61]
   \<and> filter (\<lambda>e. text_entry e = [0x61]) (history (init_store\<lparr>history :=
         [\<lparr>id_entry = ''2'', text_entry = [0x62], timestamp = 2, pinned = False\<rparr>,
          \<lparr>id_entry = ''1'', text_entry = [0x61], timestamp = 1, pinned = False\<rparr>]\<rparr>))
       = [\<lparr>id_entry = ''1'', text_entry = [0x61], timestamp = 1, pinned = False\<rparr>]
   \<and> filter (\<lambda>e. text_entry e = [0x61]) (history (addEntry 3
         \<lparr>now = 7, randomUUID = ''9'', write_ok = True, committed = Updater_return\<rparr> [0x61]
         (init_store\<lparr>history :=
           [\<lparr>id_entry = ''2'', text_entry = [0x62], timestamp = 2, pinned = False\<rparr>,
            \<lparr>id_entry = ''1'', text_entry = [0x61], timestamp = 1, pinned = False\<rparr>]\<rparr>)))
       = [\<lparr>id_entry = ''1'', text_entry = [0x61], timestamp = 7, pinned = False\<rparr>]"
proof -
  have r: "\<not> rejected [0x61]" by (simp add: rejected_def trim_def isWhiteSpace_def)
  have f: "filter (\<lambda>e. text_entry e = [0x61]) (history (init_store\<lparr>history :=
         [\<lparr>id_entry = ''2'', text_entry = [0x62], timestamp = 2, pinned = False\<rparr>,
          \<lparr>id_entry = ''1'', text_entry = [0x61], timestamp = 1, pinned = False\<rparr>]\<rparr>))
       = [\<lparr>id_entry = ''1'', text_entry = [0x61], timestamp = 1, pinned = False\<rparr>]"
    by simp
  have m: "(0::nat) < 3" by simp
  from addEntry_existing_text_promotes [OF m r f,
      of "\<lparr>now = 7, randomUUID = ''9'', write_ok = True, committed = Updater_return\<rparr>"] r f
  show ?thesis by simp
qed

section \<open>togglePinEntry\<close>

lemma filter_distinct_key:
  "distinct (map f h) \<Longrightarrow> x \<in> set h \<Longrightarrow> filter (\<lambda>e. f e = f x) h = [x]"
proof (induction h)
  case Nil
  then show ?case by simp
next
  case (Cons y ys)
  show ?case
  proof (cases "x = y")
    case True
    from Cons.prems(1) have "f y \<notin> f ` set ys" by simp
    then have "\<forall>e\<in>set ys. f e \<noteq> f y" by (metis imageI)
    then have "filter (\<lambda>e. f e = f y) ys = []" by (simp add: filter_empty_conv)
    with True show ?thesis by simp
  next
    case False
    with Cons.prems have "x \<in> set ys" "distinct (map f ys)" "f y \<noteq> f x" by auto
    with Cons.IH show ?thesis by simp
  qed
qed

lemma map_id_toggled: "k < length h \<Longrightarrow> map id_entry (toggled k h) = map id_entry h"
proof -
  assume k: "k < length h"
  have "map id_entry (toggled k h)
        = map id_entry (take k h @ h ! k # drop (Suc k) h)"
    by (simp add: toggled_def)
  also have "\<dots> = map id_entry h" using k by (simp add: id_take_nth_drop [symmetric])
  finally show ?thesis .
qed

lemma mset_toggled:
  "k < length h \<Longrightarrow>
   mset (toggled k h) = add_mset ((h ! k)\<lparr>pinned := \<not> pinned (h ! k)\<rparr>) (mset h - {#h ! k#})"
  using mset_remove_nth [of k h] by (simp add: toggled_def del: mset_append) simp

lemma togglePinEntry_found:
  assumes "distinct (map id_entry (history s))" "e \<in> set (history s)"
  shows "mset (history (togglePinEntry ok (id_entry e) s))
           = add_mset (e\<lparr>pinned := \<not> pinned e\<rparr>) (mset (history s) - {#e#})"
    and "distinct (map id_entry (history (togglePinEntry ok (id_entry e) s)))"
proof -
  let ?h = "history s"
  from filter_distinct_key [OF assms] findIndex_only [of "\<lambda>x. id_entry x = id_entry e" ?h e]
  obtain k where k: "findIndex (\<lambda>x. id_entry x = id_entry e) ?h = Some k" "k < length ?h" "?h ! k = e"
    by auto
  then have hist: "history (togglePinEntry ok (id_entry e) s) = sortHistory (toggled k ?h)"
    by (simp add: history_togglePinEntry)
  show "mset (history (togglePinEntry ok (id_entry e) s))
           = add_mset (e\<lparr>pinned := \<not> pinned e\<rparr>) (mset (history s) - {#e#})"
    using hist k mset_toggled [of k ?h] by (simp add: mset_sortHistory)
  have "mset (map id_entry (sortHistory (toggled k ?h))) = mset (map id_entry (toggled k ?h))"
    by (metis mset_map mset_sortHistory)
  then have "distinct (map id_entry (sortHistory (toggled k ?h))) = distinct (map id_entry (toggled k ?h))"
    by (rule mset_eq_imp_distinct_iff)
  with hist k assms(1) show "distinct (map id_entry (history (togglePinEntry ok (id_entry e) s)))"
    by (simp add: map_id_toggled)
qed

text \<open>
  Claim C8. Let the ids of the history be distinct and let \<open>e\<close> be its entry
  with id \<open>i\<close>. After \<^verbatim>\<open>togglePinEntry (i)\<close> the history holds \<open>e\<close> with its pin
  flag negated and every other field as it was (id, text and timestamp) in
  place of \<open>e\<close>, and every other entry unchanged. After a second
  \<^verbatim>\<open>togglePinEntry (i)\<close> the history holds the entries it held at first, so
  the entry with id \<open>i\<close> is \<open>e\<close> again, with the pin flag and the timestamp it
  had. When no entry has id \<open>i\<close> the call returns the state it was given.
\<close>

theorem togglePinEntry_flips_pinned_only:
  "(distinct (map id_entry (history s)) \<and> e \<in> set (history s) \<and> id_entry e = i \<longrightarrow>
      mset (history (togglePinEntry ok i s))
        = add_mset (e\<lparr>pinned := \<not> pinned e\<rparr>) (mset (history s) - {#e#})
      \<and> filter (\<lambda>x. id_entry x = i) (history (togglePinEntry ok i s)) = [e\<lparr>pinned := \<not> pinned e\<rparr>]
      \<and> mset (history (togglePinEntry ok' i (togglePinEntry ok i s))) = mset (history s)
      \<and> filter (\<lambda>x. id_entry x = i) (history (togglePinEntry ok' i (togglePinEntry ok i s))) = [e])
   \<and> (i \<notin> id_entry ` set (history s) \<longrightarrow> togglePinEntry ok i s = s)"
proof (intro conjI impI)
  assume "i \<notin> id_entry ` set (history s)"
  then have "findIndex (\<lambda>entry. id_entry entry = i) (history s) = None"
    by (auto simp: findIndex_None_iff)
  then show "togglePinEntry ok i s = s" by (simp add: togglePinEntry_def)
next
  assume a: "distinct (map id_entry (history s)) \<and> e \<in> set (history s) \<and> id_entry e = i"
  let ?e' = "e\<lparr>pinned := \<not> pinned e\<rparr>" and ?s1 = "togglePinEntry ok i s"
  let ?s2 = "togglePinEntry ok' i (togglePinEntry ok i s)"
  from a have d: "distinct (map id_entry (history s))" and e: "e \<in> set (history s)"
    and i: "i = id_entry e" by simp_all
  from togglePinEntry_found [OF d e, of ok] i
  have m1: "mset (history ?s1) = add_mset ?e' (mset (history s) - {#e#})"
    and d1: "distinct (map id_entry (history ?s1))" by simp_all
  from m1 have e1: "?e' \<in> set (history ?s1)"
    by (metis union_single_eq_member set_mset_mset add_mset_add_single)
  have i': "id_entry ?e' = i" using i by simp
  from togglePinEntry_found [OF d1 e1, of ok'] i'
  have m2: "mset (history ?s2)
          = add_mset (?e'\<lparr>pinned := \<not> pinned ?e'\<rparr>) (mset (history ?s1) - {#?e'#})"
    and d2: "distinct (map id_entry (history ?s2))" by simp_all
  have "add_mset (?e'\<lparr>pinned := \<not> pinned ?e'\<rparr>) (mset (history ?s1) - {#?e'#})
          = add_mset e (mset (history s) - {#e#})" using m1 by simp
  also have "\<dots> = mset (history s)" using e by simp
  finally have m2': "mset (history ?s2) = mset (history s)" using m2 by simp
  then have e2: "e \<in> set (history ?s2)" using e by (metis set_mset_mset)
  show "mset (history ?s1) = add_mset ?e' (mset (history s) - {#e#})" by (rule m1)
  show "filter (\<lambda>x. id_entry x = i) (history ?s1) = [?e']"
    using filter_distinct_key [OF d1 e1] i' by simp
  show "mset (history ?s2) = mset (history s)" by (rule m2')
  show "filter (\<lambda>x. id_entry x = i) (history ?s2) = [e]"
    using filter_distinct_key [OF d2 e2] i by simp
qed

theorem togglePinEntry_flips_pinned_only_witness:
  "distinct (map id_entry (history (init_store\<lparr>history :=
         [\<lparr>id_entry = ''1'', text_entry = [0x78], timestamp = 4, pinned = False\<rparr>]\<rparr>)))
   \<and> filter (\<lambda>x. id_entry x = ''1'') (history (togglePinEntry True ''1'' (init_store\<lparr>history :=
         [\<lparr>id_entry = ''1'', text_entry = [0x78], timestamp = 4, pinned = False\<rparr>]\<rparr>)))
       = [\<lparr>id_entry = ''1'', text_entry = [0x78], timestamp = 4, pinned = True\<rparr>]
   \<and> filter (\<lambda>x. id_entry x = ''1'') (history (togglePinEntry False ''1'' (togglePinEntry True ''1''
         (init_store\<lparr>history :=
           [\<lparr>id_entry = ''1'', text_entry = [0x78], timestamp = 4, pinned = False\<rparr>]\<rparr>))))
       = [\<lparr>id_entry = ''1'', text_entry = [0x78], timestamp = 4, pinned = False\<rparr>]
   \<and> ''7'' \<notin> id_entry ` set (history init_store)
   \<and> togglePinEntry True ''7'' init_store = init_store"
  using togglePinEntry_flips_pinned_only [of "init_store\<lparr>history :=
         [\<lparr>id_entry = ''1'', text_entry = [0x78], timestamp = 4, pinned = False\<rparr>]\<rparr>"
      "\<lparr>id_entry = ''1'', text_entry = [0x78], timestamp = 4, pinned = False\<rparr>" "''1''" True False]
    togglePinEntry_flips_pinned_only [of init_store _ "''7''" True]
  by (simp add: init_store_def)

section \<open>The scenario with one pinned entry and a cap of three\<close>

lemma history_addEntry_on_time:
  assumes "\<not> rejected t" "canonical (history s)" "\<forall>y\<in>set (history s). timestamp y \<le> now env"
  shows "history (addEntry M env t s) = finalHistory M (now env) (randomUUID env) t (history s)"
proof -
  from assms(2,3) have "canonical (finalHistory M (now env) (randomUUID env) t (history s))"
    by (rule canonical_finalHistory)
  then have "sortHistory (finalHistory M (now env) (randomUUID env) t (history s))
      = finalHistory M (now env) (randomUUID env) t (history s)"
    by (rule sortHistory_canonical)
  with assms(1) show ?thesis
    by (cases "committed env") (simp_all add: history_addEntry)
qed

lemma rejected_letters:
  "\<not> rejected [0x61]" "\<not> rejected [0x62]" "\<not> rejected [0x63]" "\<not> rejected [0x64]" "\<not> rejected [0x65]"
  by (simp_all add: rejected_def trim_def isWhiteSpace_def)

text \<open>
  Claim C2, as stated, fails. With a cap of 3 the calls add "a", "b", "c",
  pin "a", add "d", add "e" at the times 1 to 5 leave "a" (pinned), "e",
  "d", "c": the last \<^verbatim>\<open>addEntry\<close> keeps the first three of the unpinned
  entries "e", "d", "c", "b", so the entry it drops is "b", the oldest, and
  not "c".
\<close>

theorem scenario_does_not_evict_c:
  "\<not> map (\<lambda>x. (text_entry x, pinned x)) (history (run 3
       [AddEntry \<lparr>now = 1, randomUUID = ''ia'', write_ok = True, committed = SaveHistory_write\<rparr> [0x61],
        AddEntry \<lparr>now = 2, randomUUID = ''ib'', write_ok = True, committed = SaveHistory_write\<rparr> [0x62],
        AddEntry \<lparr>now = 3, randomUUID = ''ic'', write_ok = True, committed = SaveHistory_write\<rparr> [0x63],
        TogglePinEntry True ''ia'',
        AddEntry \<lparr>now = 4, randomUUID = ''id'', write_ok = True, committed = SaveHistory_write\<rparr> [0x64],
        AddEntry \<lparr>now = 5, randomUUID = ''ie'', write_ok = True, committed = SaveHistory_write\<rparr> [0x65]] init_store))
     = [([0x61], True), ([0x65], False), ([0x64], False), ([0x62], False)]"
  by code_simp

text \<open>
  Claim C2, amended. With a cap of 3, from the empty store, the calls
  \<^verbatim>\<open>addEntry\<close> "a", "b", "c", \<^verbatim>\<open>togglePinEntry\<close> of the id of "a",
  \<^verbatim>\<open>addEntry\<close> "d", "e", each add at a strictly later time than the one
  before (and the ids given to "b" and "c" other than that of "a"), leave the
  history "a" (pinned), "e", "d", "c", in this order: the entry dropped by
  the last \<^verbatim>\<open>addEntry\<close> is "b". This holds whatever the outcome of the writes
  and whichever of the two values \<^verbatim>\<open>addEntry\<close> leaves in the history cell.
\<close>

theorem scenario_evicts_oldest_unpinned:
  assumes "now e1 < now e2" "now e2 < now e3" "now e3 < now e4" "now e4 < now e5"
    and "randomUUID e2 \<noteq> randomUUID e1" "randomUUID e3 \<noteq> randomUUID e1"
  shows "history (run 3
      [AddEntry e1 [0x61], AddEntry e2 [0x62], AddEntry e3 [0x63],
       TogglePinEntry ok (randomUUID e1),
       AddEntry e4 [0x64], AddEntry e5 [0x65]] init_store)
    = [\<lparr>id_entry = randomUUID e1, text_entry = [0x61], timestamp = now e1, pinned = True\<rparr>,
       \<lparr>id_entry = randomUUID e5, text_entry = [0x65], timestamp = now e5, pinned = False\<rparr>,
       \<lparr>id_entry = randomUUID e4, text_entry = [0x64], timestamp = now e4, pinned = False\<rparr>,
       \<lparr>id_entry = randomUUID e3, text_entry = [0x63], timestamp = now e3, pinned = False\<rparr>]"
proof -
  let ?a = "\<lparr>id_entry = randomUUID e1, text_entry = [0x61], timestamp = now e1, pinned = False\<rparr>"
  let ?ap = "\<lparr>id_entry = randomUUID e1, text_entry = [0x61], timestamp = now e1, pinned = True\<rparr>"
  let ?b = "\<lparr>id_entry = randomUUID e2, text_entry = [0x62], timestamp = now e2, pinned = False\<rparr>"
  let ?c = "\<lparr>id_entry = randomUUID e3, text_entry = [0x63], timestamp = now e3, pinned = False\<rparr>"
  let ?d = "\<lparr>id_entry = randomUUID e4, text_entry = [0x64], timestamp = now e4, pinned = False\<rparr>"
  let ?e = "\<lparr>id_entry = randomUUID e5, text_entry = [0x65], timestamp = now e5, pinned = False\<rparr>"
  let ?s1 = "addEntry 3 e1 [0x61] init_store"
  let ?s2 = "addEntry 3 e2 [0x62] ?s1"
  let ?s3 = "addEntry 3 e3 [0x63] ?s2"
  let ?s4 = "togglePinEntry ok (randomUUID e1) ?s3"
  let ?s5 = "addEntry 3 e4 [0x64] ?s4"
  let ?s6 = "addEntry 3 e5 [0x65] ?s5"
  have h0: "history init_store = []" by (simp add: init_store_def)
  have h1: "history ?s1 = [?a]"
    by (subst history_addEntry_on_time)
      (simp_all add: rejected_letters h0 canonical_def finalHistory_def)
  have h2: "history ?s2 = [?b, ?a]"
    using assms
    by (subst history_addEntry_on_time)
      (simp_all add: rejected_letters h1 canonical_def finalHistory_def compareEntries_def)
  have h3: "history ?s3 = [?c, ?b, ?a]"
    using assms
    by (subst history_addEntry_on_time)
      (simp_all add: rejected_letters h2 canonical_def finalHistory_def compareEntries_def)
  have h4: "history ?s4 = [?ap, ?c, ?b]"
    using assms
    by (simp add: history_togglePinEntry h3 toggled_def compareEntries_def)
  have h5: "history ?s5 = [?ap, ?d, ?c, ?b]"
    using assms
    by (subst history_addEntry_on_time)
      (simp_all add: rejected_letters h4 canonical_def finalHistory_def compareEntries_def)
  have h6: "history ?s6 = [?ap, ?e, ?d, ?c]"
    using assms
    by (subst history_addEntry_on_time)
      (simp_all add: rejected_letters h5 canonical_def finalHistory_def compareEntries_def)
  then show ?thesis by simp
qed

theorem scenario_evicts_oldest_unpinned_witness:
  "(1::int) < 2 \<and> (2::int) < 3 \<and> (3::int) < 4 \<and> (4::int) < 5 \<and> ''ib'' \<noteq> ''ia'' \<and> ''ic'' \<noteq> ''ia''
   \<and> history (run 3
       [AddEntry \<lparr>now = 1, randomUUID = ''ia'', write_ok = True, committed = Updater_return\<rparr> [0x61],
        AddEntry \<lparr>now = 2, randomUUID = ''ib'', write_ok = False, committed = SaveHistory_write\<rparr> [0x62],
        AddEntry \<lparr>now = 3, randomUUID = ''ic'', write_ok = True, committed = Updater_return\<rparr> [0x63],
        TogglePinEntry True ''ia'',
        AddEntry \<lparr>now = 4, randomUUID = ''id'', write_ok = True, committed = SaveHistory_write\<rparr> [0x64],
        AddEntry \<lparr>now = 5, randomUUID = ''ie'', write_ok = True, committed = Updater_return\<rparr> [0x65]]
       init_store)
     = [\<lparr>id_entry = ''ia'', text_entry = [0x61], timestamp = 1, pinned = True\<rparr>,
        \<lparr>id_entry = ''ie'', text_entry = [0x65], timestamp = 5, pinned = False\<rparr>,
        \<lparr>id_entry = ''id'', text_entry = [0x64], timestamp = 4, pinned = False\<rparr>,
        \<lparr>id_entry = ''ic'', text_entry = [0x63], timestamp = 3, pinned = False\<rparr>]"
  using scenario_evicts_oldest_unpinned [of
      "\<lparr>now = 1, randomUUID = ''ia'', write_ok = True, committed = Updater_return\<rparr>"
      "\<lparr>now = 2, randomUUID = ''ib'', write_ok = False, committed = SaveHistory_write\<rparr>"
      "\<lparr>now = 3, randomUUID = ''ic'', write_ok = True, committed = Updater_return\<rparr>"
      "\<lparr>now = 4, randomUUID = ''id'', write_ok = True, committed = SaveHistory_write\<rparr>"
      "\<lparr>now = 5, randomUUID = ''ie'', write_ok = True, committed = Updater_return\<rparr>" True]
  by simp

end
